theory Spec2Isabelle
  imports Main "HOL-Library.Word" "HOL-Library.Char_ord" "HOL-Library.List_Lexorder"
    "HOL-Library.Multiset"
begin

section \<open>Hybrid logical clock (package hlc)\<close>

text \<open>
  Go's \<^verbatim>\<open>int64\<close> is a 64-bit word: \<open>+\<close> and \<open>-\<close> wrap around, and the
  comparisons of the source are the signed ones (\<open>word_sless\<close>, \<open>word_sle\<close>).
  \<^verbatim>\<open>time.Duration\<close> is an \<^verbatim>\<open>int64\<close> count of nanoseconds, so
  \<^verbatim>\<open>d.Nanoseconds()\<close> is the word itself.
\<close>

type_synonym int64 = "64 word"

definition MaxInt64 :: int64 where
  "MaxInt64 = 0x7FFFFFFFFFFFFFFF"

definition MinInt64 :: int64 where
  "MinInt64 = 0x8000000000000000"

record Timestamp =
  WallTime :: int64
  Logical :: int64

definition MaxTimestamp :: Timestamp where
  "MaxTimestamp = \<lparr>WallTime = MaxInt64, Logical = MaxInt64\<rparr>"

definition MinTimestamp :: Timestamp where
  "MinTimestamp = \<lparr>WallTime = 0, Logical = 0\<rparr>"

text \<open>\<^verbatim>\<open>func (t Timestamp) Less(s Timestamp) bool\<close>\<close>

definition Less :: "Timestamp \<Rightarrow> Timestamp \<Rightarrow> bool" where
  "Less t s =
     (word_sless (WallTime t) (WallTime s) \<or>
      (WallTime t = WallTime s \<and> word_sless (Logical t) (Logical s)))"

text \<open>\<^verbatim>\<open>func (t Timestamp) Equal(s Timestamp) bool\<close>\<close>

definition Equal :: "Timestamp \<Rightarrow> Timestamp \<Rightarrow> bool" where
  "Equal t s = (WallTime t = WallTime s \<and> Logical t = Logical s)"

text \<open>
  The \<^verbatim>\<open>Clock\<close> struct. Its \<^verbatim>\<open>physicalClock func() int64\<close> is the
  environment: every method that calls it takes the value it returned in that call as
  its first argument. The mutex is not modelled: a method is one atomic step.
\<close>

record Clock =
  state :: Timestamp
  maxDrift :: int64

datatype error =
  DriftError int64 int64  \<comment> \<open>remote wall time, nanoseconds ahead\<close>

definition NewClock :: Clock where
  "NewClock = \<lparr>state = \<lparr>WallTime = 0, Logical = 0\<rparr>, maxDrift = 0\<rparr>"

definition SetMaxDrift :: "int64 \<Rightarrow> Clock \<Rightarrow> Clock" where
  "SetMaxDrift delta c = c\<lparr>maxDrift := delta\<rparr>"

definition MaxDrift :: "Clock \<Rightarrow> int64" where
  "MaxDrift c = maxDrift c"

text \<open>\<^verbatim>\<open>func (c *Clock) timestamp() Timestamp\<close>, and the exported
  \<^verbatim>\<open>Timestamp()\<close> that takes the lock around it.\<close>

definition timestamp :: "Clock \<Rightarrow> Timestamp" where
  "timestamp c = \<lparr>WallTime = WallTime (state c), Logical = Logical (state c)\<rparr>"

definition Clock_Timestamp :: "Clock \<Rightarrow> Timestamp" where
  "Clock_Timestamp c = timestamp c"

text \<open>
  \<^verbatim>\<open>func (c *Clock) Now() (result Timestamp)\<close>. The deferred function sets the
  result to the state after the branch.
\<close>

definition Now :: "int64 \<Rightarrow> Clock \<Rightarrow> Clock \<times> Timestamp" where
  "Now physicalClock c =
     (let c' =
        (if word_sle physicalClock (WallTime (state c))
         then c\<lparr>state := (state c)\<lparr>Logical := Logical (state c) + 1\<rparr>\<rparr>
         else c\<lparr>state := \<lparr>WallTime = physicalClock, Logical = 0\<rparr>\<rparr>)
      in (c', timestamp c'))"

text \<open>
  \<^verbatim>\<open>func (c *Clock) Update(rt Timestamp) (result Timestamp, err error)\<close>. The
  result is the clock's state when the function returns, on every path (the deferred
  function), also on the error path.
\<close>

definition Update :: "int64 \<Rightarrow> Timestamp \<Rightarrow> Clock \<Rightarrow> Clock \<times> Timestamp \<times> error option" where
  "Update physicalClock rt c =
     (if word_sless (WallTime (state c)) physicalClock \<and> word_sless (WallTime rt) physicalClock
      then
        (let c' = c\<lparr>state := \<lparr>WallTime = physicalClock, Logical = 0\<rparr>\<rparr>
         in (c', timestamp c', None))
      else if word_sless (WallTime (state c)) (WallTime rt)
      then
        (if word_sless 0 (maxDrift c) \<and> word_sless (maxDrift c) (WallTime rt - physicalClock)
         then (c, timestamp c, Some (DriftError (WallTime rt) (WallTime rt - physicalClock)))
         else
           (let c' = c\<lparr>state := \<lparr>WallTime = WallTime rt, Logical = Logical rt + 1\<rparr>\<rparr>
            in (c', timestamp c', None)))
      else if word_sless (WallTime rt) (WallTime (state c))
      then
        (let c' = c\<lparr>state := (state c)\<lparr>Logical := Logical (state c) + 1\<rparr>\<rparr>
         in (c', timestamp c', None))
      else
        (let l = (if word_sless (Logical (state c)) (Logical rt) then Logical rt
                  else Logical (state c));
             c' = c\<lparr>state := (state c)\<lparr>Logical := l + 1\<rparr>\<rparr>
         in (c', timestamp c', None)))"

text \<open>
  A clock is only ever obtained from \<^verbatim>\<open>NewClock\<close> and changed by its methods
  (the fields are unexported). \<open>run_clock\<close> applies a sequence of method calls, each
  with the physical time read during the call.
\<close>

datatype clock_call =
  CallNow int64
| CallUpdate int64 Timestamp
| CallSetMaxDrift int64

fun call_clock :: "clock_call \<Rightarrow> Clock \<Rightarrow> Clock" where
  "call_clock (CallNow p) c = fst (Now p c)"
| "call_clock (CallUpdate p rt) c = fst (Update p rt c)"
| "call_clock (CallSetMaxDrift d) c = SetMaxDrift d c"

fun run_clock :: "clock_call list \<Rightarrow> Clock \<Rightarrow> Clock" where
  "run_clock [] c = c"
| "run_clock (x # xs) c = run_clock xs (call_clock x c)"


text \<open>A sequence of \<^verbatim>\<open>Now()\<close> calls, one per physical reading, and its results.\<close>

fun Nows :: "int64 list \<Rightarrow> Clock \<Rightarrow> Clock \<times> Timestamp list" where
  "Nows [] c = (c, [])"
| "Nows (p # ps) c =
     (let (c', t) = Now p c; (c'', ts) = Nows ps c' in (c'', t # ts))"

section \<open>Keys and range descriptors (package storage, config.go)\<close>

text \<open>
  Modelled from the spec: the package \<^verbatim>\<open>engine\<close> (the type \<^verbatim>\<open>Key\<close>, a byte
  string, with \<^verbatim>\<open>Key.Less\<close>, \<^verbatim>\<open>KeyMin\<close> and \<^verbatim>\<open>KeyMax\<close>) is not among
  the sources; the spec gives keys ``a total lexicographic order'' on byte strings and
  ``a sentinel minimum and maximum key''. \<open>(<)\<close> on \<open>char list\<close> is that order:
  bytes compare as unsigned numbers, a proper prefix is smaller. \<^verbatim>\<open>config.go\<close>, with
  \<^verbatim>\<open>Replica\<close>, \<^verbatim>\<open>RangeDescriptor\<close> and its methods, is among the sources.
\<close>

type_synonym Key = string

definition Key_Less :: "Key \<Rightarrow> Key \<Rightarrow> bool" where
  "Key_Less k l = (k < l)"

definition KeyMin :: Key where
  "KeyMin = []"

definition KeyMax :: Key where
  "KeyMax = [CHR 0xFF, CHR 0xFF]"

type_synonym int32 = "32 word"

record Replica =
  NodeID :: int32
  StoreID :: int32
  RangeID :: int64
  Attrs :: "string list"

record RangeDescriptor =
  StartKey :: Key
  EndKey :: Key
  Replicas :: "Replica list"

text \<open>The \<^verbatim>\<open>panic\<close> of \<^verbatim>\<open>ContainsKeyRange\<close>, as a value.\<close>

datatype fault =
  StartAfterEnd Key Key

text \<open>\<^verbatim>\<open>func (r *RangeDescriptor) ContainsKey(key engine.Key) bool\<close>\<close>

definition ContainsKey :: "'a RangeDescriptor_scheme \<Rightarrow> Key \<Rightarrow> bool" where
  "ContainsKey r key = (\<not> Key_Less key (StartKey r) \<and> Key_Less key (EndKey r))"

text \<open>\<^verbatim>\<open>func (r *RangeDescriptor) ContainsKeyRange(start, end engine.Key) bool\<close>\<close>

definition ContainsKeyRange :: "'a RangeDescriptor_scheme \<Rightarrow> Key \<Rightarrow> Key \<Rightarrow> fault + bool" where
  "ContainsKeyRange r start end =
     (let end = (if length end = 0 then start else end)
      in if Key_Less end start then Inl (StartAfterEnd start end)
         else Inr (\<not> Key_Less start (StartKey r) \<and> \<not> Key_Less (EndKey r) end))"

section \<open>Read timestamp cache\<close>

text \<open>
  Modelled from the spec: \<^verbatim>\<open>ReadTimestampCache\<close> with \<^verbatim>\<open>NewReadTimestampCache\<close>,
  \<^verbatim>\<open>Add\<close>, \<^verbatim>\<open>GetMax\<close>, \<^verbatim>\<open>Clear\<close> and the eviction, and the constant
  \<^verbatim>\<open>minCacheWindow\<close>, are not among the sources; only
  \<^verbatim>\<open>read_timestamp_cache_test.go\<close> is. The model follows sections 3 and 4.2 of the
  spec, and the tests where the spec leaves a choice:

  \<^item> the entries are kept in the order they were added, overlapping ones side by side;
  \<^item> an empty \<open>end\<close> stands for the single key \<open>start\<close>, the interval from
    \<open>start\<close> up to the next key \<open>start\<close> followed by a zero byte;
  \<^item> \<open>GetMax\<close> starts from the high-water mark and raises it to every overlapping
    entry that is higher (``never returns a value below the high-water mark'',
    ``\<open>GetMax("a", nil) == max(t0, highWaterMark)\<close>''; \<^verbatim>\<open>TestReadTimestampCache\<close>
    reads the high-water mark back for key \<open>a\<close> after adding \<open>a\<close> at a lower time);
  \<^item> an entry is folded into the high-water mark once its wall time is
    \<open>minCacheWindow\<close> or more behind the wall time of the read being added
    (\<^verbatim>\<open>TestReadTimestampCacheEviction\<close> advances the time by exactly
    \<open>minCacheWindow\<close> and expects the older entry folded by the next \<open>Add\<close>);
  \<^item> \<open>minCacheWindow\<close> is a parameter, and so is the shared clock that
    construction and \<open>Clear\<close> read.
\<close>

record CacheEntry =
  startKey :: Key
  endKey :: Key
  readTS :: Timestamp

record ReadTimestampCache =
  entries :: "CacheEntry list"
  highWater :: Timestamp

definition NextKey :: "Key \<Rightarrow> Key" where
  "NextKey k = k @ [CHR 0x00]"

definition intervalEnd :: "Key \<Rightarrow> Key \<Rightarrow> Key" where
  "intervalEnd start end = (if end = [] then NextKey start else end)"

text \<open>Two half-open intervals overlap when they share a key.\<close>

definition overlaps :: "Key \<Rightarrow> Key \<Rightarrow> CacheEntry \<Rightarrow> bool" where
  "overlaps start end e = (max start (startKey e) < min end (endKey e))"

text \<open>The later of two timestamps, the first one on a tie.\<close>

definition raise :: "Timestamp \<Rightarrow> Timestamp \<Rightarrow> Timestamp" where
  "raise m t = (if Less m t then t else m)"

text \<open>Modelled from the spec: \<^verbatim>\<open>Clear()\<close> ``discards all entries; recomputes the
  high-water mark as \<open>clock.Timestamp() + maxDrift\<close>''; \<^verbatim>\<open>TestReadTimestampCacheClear\<close>
  adds the drift to the wall time. A new cache is a cleared one.\<close>

definition Clear :: "Clock \<Rightarrow> ReadTimestampCache \<Rightarrow> ReadTimestampCache" where
  "Clear clock rtc =
     rtc\<lparr>entries := [],
         highWater := (Clock_Timestamp clock)
           \<lparr>WallTime := WallTime (Clock_Timestamp clock) + MaxDrift clock\<rparr>\<rparr>"

definition NewReadTimestampCache :: "Clock \<Rightarrow> ReadTimestampCache" where
  "NewReadTimestampCache clock = Clear clock \<lparr>entries = [], highWater = MinTimestamp\<rparr>"

text \<open>Modelled from the spec: \<^verbatim>\<open>GetMax(start, end)\<close>, the high-water mark raised to
  every stored entry that overlaps the queried interval.\<close>

definition GetMax :: "ReadTimestampCache \<Rightarrow> Key \<Rightarrow> Key \<Rightarrow> Timestamp" where
  "GetMax rtc start end =
     foldl raise (highWater rtc)
       (map readTS (filter (overlaps start (intervalEnd start end)) (entries rtc)))"

text \<open>
  Modelled from the spec: eviction folds the selected entries into the high-water mark,
  ``raising it to the folded entry's timestamp if higher'', and removes them.
  \<open>shouldEvict\<close> selects the entries that are \<open>minCacheWindow\<close> or more behind the
  latest read, and \<^verbatim>\<open>Add(start, end, ts)\<close> records the read and evicts.
\<close>

definition evict :: "(CacheEntry \<Rightarrow> bool) \<Rightarrow> ReadTimestampCache \<Rightarrow> ReadTimestampCache" where
  "evict p rtc =
     rtc\<lparr>entries := filter (\<lambda>e. \<not> p e) (entries rtc),
         highWater := foldl raise (highWater rtc) (map readTS (filter p (entries rtc)))\<rparr>"

definition shouldEvict :: "int64 \<Rightarrow> Timestamp \<Rightarrow> CacheEntry \<Rightarrow> bool" where
  "shouldEvict minCacheWindow latest e =
     (sint minCacheWindow \<le> sint (WallTime latest) - sint (WallTime (readTS e)))"

definition Add :: "int64 \<Rightarrow> Key \<Rightarrow> Key \<Rightarrow> Timestamp \<Rightarrow> ReadTimestampCache \<Rightarrow> ReadTimestampCache" where
  "Add minCacheWindow start end ts rtc =
     evict (shouldEvict minCacheWindow ts)
       (rtc\<lparr>entries := entries rtc @
          [\<lparr>startKey = start, endKey = intervalEnd start end, readTS = ts\<rparr>]\<rparr>)"

text \<open>
  A sequence of \<open>Add\<close> calls, the entries it records, and the entries that its
  evictions fold away (the rest are the ones still stored).
\<close>

type_synonym read = "Key \<times> Key \<times> Timestamp"

fun entryOf :: "read \<Rightarrow> CacheEntry" where
  "entryOf (start, end, ts) = \<lparr>startKey = start, endKey = intervalEnd start end, readTS = ts\<rparr>"

fun Adds :: "int64 \<Rightarrow> read list \<Rightarrow> ReadTimestampCache \<Rightarrow> ReadTimestampCache" where
  "Adds w [] rtc = rtc"
| "Adds w ((start, end, ts) # rs) rtc = Adds w rs (Add w start end ts rtc)"

fun folded :: "int64 \<Rightarrow> read list \<Rightarrow> ReadTimestampCache \<Rightarrow> CacheEntry list" where
  "folded w [] rtc = []"
| "folded w ((start, end, ts) # rs) rtc =
     filter (shouldEvict w ts) (entries rtc @ [entryOf (start, end, ts)])
       @ folded w rs (Add w start end ts rtc)"

section \<open>Store\<close>

text \<open>
  Modelled from the spec: \<^verbatim>\<open>Store\<close> with \<^verbatim>\<open>NewStore\<close>, \<^verbatim>\<open>Init\<close>,
  \<^verbatim>\<open>Bootstrap\<close>, \<^verbatim>\<open>CreateRange\<close>, \<^verbatim>\<open>GetRange\<close> and
  \<^verbatim>\<open>ExecuteCmd\<close>, the types \<^verbatim>\<open>StoreIdent\<close>, \<^verbatim>\<open>RangeMetadata\<close> and
  \<^verbatim>\<open>Range\<close>, and the key-value engine are not among the sources; only the tests
  of the store are. The model follows sections 3, 4.4 and 6 of the spec:

  \<^item> the engine is a finite table from keys to values, at most one value per key; what
    it stores encoded as bytes is kept as the value itself;
  \<^item> the \<^verbatim>\<open>StoreIdent\<close> lives at one fixed key, a \<^verbatim>\<open>RangeMetadata\<close> at a
    key derived from its \<^verbatim>\<open>EndKey\<close>;
  \<^item> a new \<^verbatim>\<open>RangeID\<close> is one more than the largest resident one, so the first
    is 1;
  \<^item> the handler that a method name stands for, and whether it reads, are a parameter
    of \<^verbatim>\<open>ExecuteCmd\<close>, as are the physical time read during the call and
    \<open>minCacheWindow\<close>.

  Section 4.4 of the spec lets \<^verbatim>\<open>Bootstrap\<close> create the first range. The test
  \<^verbatim>\<open>TestStoreInitAndBootstrap\<close> expects \<^verbatim>\<open>GetRange(1)\<close> to fail right after a
  successful \<^verbatim>\<open>Bootstrap\<close> and creates the range with \<^verbatim>\<open>CreateRange\<close>;
  \<^verbatim>\<open>createTestStore\<close> calls \<^verbatim>\<open>CreateRange\<close> on a store that was never
  bootstrapped. The model follows the tests: \<^verbatim>\<open>Bootstrap\<close> persists the identity
  only, and \<^verbatim>\<open>CreateRange\<close> does not ask for one.
\<close>

record StoreIdent =
  Ident_ClusterID :: string
  Ident_NodeID :: int32
  Ident_StoreID :: int32

record RangeMetadata = RangeDescriptor +
  Meta_ClusterID :: string
  Meta_RangeID :: int64

type_synonym Range = RangeMetadata

datatype EngineValue =
  IdentValue StoreIdent
| MetaValue RangeMetadata
| BytesValue string

type_synonym Engine = "(Key \<times> EngineValue) list"

definition engine_Get :: "Engine \<Rightarrow> Key \<Rightarrow> EngineValue option" where
  "engine_Get eng k = map_of eng k"

definition engine_Put :: "Key \<Rightarrow> EngineValue \<Rightarrow> Engine \<Rightarrow> Engine" where
  "engine_Put k v eng = (k, v) # filter (\<lambda>kv. fst kv \<noteq> k) eng"

definition engine_Scan :: "Engine \<Rightarrow> Key \<Rightarrow> Key \<Rightarrow> (Key \<times> EngineValue) list" where
  "engine_Scan eng start end = sort_key fst (filter (\<lambda>kv. start \<le> fst kv \<and> fst kv < end) eng)"

definition KeyLocalIdent :: Key where
  "KeyLocalIdent = CHR 0x00 # ''store-ident''"

definition KeyMetaPrefix :: Key where
  "KeyMetaPrefix = CHR 0x00 # ''meta''"

definition RangeMetaKey :: "Key \<Rightarrow> Key" where
  "RangeMetaKey k = KeyMetaPrefix @ k"

definition LookupKey :: "'a RangeDescriptor_scheme \<Rightarrow> Key" where
  "LookupKey r = RangeMetaKey (EndKey r)"

datatype store_error =
  NotBootstrapped
| EngineNotEmpty
| AlreadyBootstrapped
| InvalidDescriptor
| RangeNotFound int64
| InvalidRange int64
| ClockError error
| KeyOutOfRange Key Key
| RangeFault fault

record Store =
  engine :: Engine
  clock :: Clock
  readTSCache :: ReadTimestampCache
  ident :: "StoreIdent option"
  ranges :: "Range list"

definition NewStore :: "Clock \<Rightarrow> Engine \<Rightarrow> Store" where
  "NewStore c eng =
     \<lparr>engine = eng, clock = c, readTSCache = NewReadTimestampCache c,
      ident = None, ranges = []\<rparr>"

text \<open>The resident ranges are kept ordered by \<^verbatim>\<open>StartKey\<close>.\<close>

fun insertRange :: "Range \<Rightarrow> Range list \<Rightarrow> Range list" where
  "insertRange r [] = [r]"
| "insertRange r (x # xs) =
     (if Key_Less (StartKey r) (StartKey x) then r # x # xs else x # insertRange r xs)"

fun scannedRanges :: "(Key \<times> EngineValue) list \<Rightarrow> Range list" where
  "scannedRanges [] = []"
| "scannedRanges ((k, MetaValue m) # kvs) = insertRange m (scannedRanges kvs)"
| "scannedRanges (kv # kvs) = scannedRanges kvs"

text \<open>Modelled from the spec: \<^verbatim>\<open>Init()\<close> reads the identity back, fails without
  one, and rebuilds the resident ranges from the metadata keys.\<close>

definition Init :: "Store \<Rightarrow> store_error + Store" where
  "Init s =
     (case engine_Get (engine s) KeyLocalIdent of
        Some (IdentValue i) \<Rightarrow>
          Inr (s\<lparr>ident := Some i,
                 ranges := scannedRanges
                   (filter (\<lambda>kv. take (length KeyMetaPrefix) (fst kv) = KeyMetaPrefix)
                      (engine_Scan (engine s) KeyMin KeyMax))\<rparr>)
      | _ \<Rightarrow> Inl NotBootstrapped)"

text \<open>Modelled from the spec: \<^verbatim>\<open>Bootstrap(ident)\<close> fails on an engine that holds any
  data or an identity, and persists the identity otherwise.\<close>

definition Bootstrap :: "StoreIdent \<Rightarrow> Store \<Rightarrow> store_error + Store" where
  "Bootstrap i s =
     (if engine s \<noteq> [] then Inl EngineNotEmpty
      else if engine_Get (engine s) KeyLocalIdent \<noteq> None then Inl AlreadyBootstrapped
      else Inr (s\<lparr>engine := engine_Put KeyLocalIdent (IdentValue i) (engine s),
                  ident := Some i\<rparr>))"

text \<open>Modelled from the spec: \<^verbatim>\<open>CreateRange(start, end, replicas)\<close> allocates the
  next id, persists the metadata under the key derived from \<open>EndKey\<close>, and inserts
  the range in \<open>StartKey\<close> order; \<^verbatim>\<open>GetRange(rangeID)\<close> looks a resident range
  up by its id.\<close>

definition nextRangeID :: "Store \<Rightarrow> int64" where
  "nextRangeID s = foldl (\<lambda>m r. if word_sless m (Meta_RangeID r) then Meta_RangeID r else m)
     0 (ranges s) + 1"

definition CreateRange :: "Key \<Rightarrow> Key \<Rightarrow> Replica list \<Rightarrow> Store \<Rightarrow> store_error + Store \<times> Range" where
  "CreateRange start end replicas s =
     (if \<not> Key_Less start end then Inl InvalidDescriptor
      else
        (let meta = \<lparr>StartKey = start, EndKey = end, Replicas = replicas,
                      Meta_ClusterID = (case ident s of None \<Rightarrow> [] | Some i \<Rightarrow> Ident_ClusterID i),
                      Meta_RangeID = nextRangeID s\<rparr>
         in Inr (s\<lparr>engine := engine_Put (LookupKey meta) (MetaValue meta) (engine s),
                    ranges := insertRange meta (ranges s)\<rparr>, meta)))"

definition GetRange :: "int64 \<Rightarrow> Store \<Rightarrow> store_error + Range" where
  "GetRange rangeID s =
     (case find (\<lambda>r. Meta_RangeID r = rangeID) (ranges s) of
        None \<Rightarrow> Inl (RangeNotFound rangeID)
      | Some r \<Rightarrow> Inr r)"

record Args =
  Args_Replica :: Replica
  Args_Key :: Key
  Args_EndKey :: Key
  Args_Timestamp :: Timestamp

record 'p Reply =
  Reply_Timestamp :: Timestamp
  Reply_Payload :: 'p

record 'p Command =
  readOnly :: bool
  run :: "Args \<Rightarrow> Engine \<Rightarrow> Engine \<times> 'p"

text \<open>
  Modelled from the spec: \<^verbatim>\<open>ExecuteCmd\<close>, the six steps of section 4.4 in their order. The clock is shared
  state: what step 2 did to it stays when step 3 fails, while the engine and the cache
  are only touched after step 3.
\<close>

definition ExecuteCmd ::
  "int64 \<Rightarrow> int64 \<Rightarrow> 'p Command \<Rightarrow> Args \<Rightarrow> Store \<Rightarrow> Store \<times> (store_error + 'p Reply)" where
  "ExecuteCmd minCacheWindow physicalClock cmd args s =
     (case GetRange (RangeID (Args_Replica args)) s of
        Inl e \<Rightarrow> (s, Inl (InvalidRange (RangeID (Args_Replica args))))
      | Inr rng \<Rightarrow>
          (let (c, ts, err) =
                 (if Equal (Args_Timestamp args) \<lparr>WallTime = 0, Logical = 0\<rparr>
                  then (let (c, ts) = Now physicalClock (clock s) in (c, ts, None))
                  else Update physicalClock (Args_Timestamp args) (clock s))
           in case err of
                Some e \<Rightarrow> (s\<lparr>clock := c\<rparr>, Inl (ClockError e))
              | None \<Rightarrow>
                  (case ContainsKeyRange rng (Args_Key args) (Args_EndKey args) of
                     Inl f \<Rightarrow> (s\<lparr>clock := c\<rparr>, Inl (RangeFault f))
                   | Inr False \<Rightarrow>
                       (s\<lparr>clock := c\<rparr>, Inl (KeyOutOfRange (Args_Key args) (Args_EndKey args)))
                   | Inr True \<Rightarrow>
                       (let (eng, payload) = run cmd (args\<lparr>Args_Timestamp := ts\<rparr>) (engine s);
                            rtc = (if readOnly cmd
                                   then Add minCacheWindow (Args_Key args) (Args_EndKey args) ts
                                          (readTSCache s)
                                   else readTSCache s)
                        in (s\<lparr>engine := eng, clock := c, readTSCache := rtc\<rparr>,
                            Inr \<lparr>Reply_Timestamp = ts, Reply_Payload = payload\<rparr>)))))"

subsection \<open>The fixtures of the store tests\<close>

text \<open>
  \<^verbatim>\<open>testIdent\<close> and \<^verbatim>\<open>createTestStore\<close> are in the test file of the store: a new
  store on an empty in-memory engine with a manual clock at 0, and one range from \<open>a\<close>
  to \<open>z\<close>. \<^verbatim>\<open>getArgs(key, rangeID)\<close> is used there and defined elsewhere: the
  arguments of a \<^verbatim>\<open>Get\<close> of one key with no timestamp set. \<open>GetCmd\<close> stands for the
  handler of the method \<^verbatim>\<open>"Get"\<close>: a read that returns what the engine holds under
  the key.
\<close>

definition testIdent :: StoreIdent where
  "testIdent = \<lparr>Ident_ClusterID = ''cluster'', Ident_NodeID = 1, Ident_StoreID = 1\<rparr>"

definition createTestStore :: "store_error + Store \<times> Range" where
  "createTestStore =
     CreateRange ''a'' ''z'' [\<lparr>NodeID = 0, StoreID = 0, RangeID = 1, Attrs = []\<rparr>]
       (NewStore NewClock [])"

definition testStore :: Store where
  "testStore = (case createTestStore of Inr (s, r) \<Rightarrow> s | Inl e \<Rightarrow> NewStore NewClock [])"

definition getArgs :: "Key \<Rightarrow> int64 \<Rightarrow> Args" where
  "getArgs key rangeID =
     \<lparr>Args_Replica = \<lparr>NodeID = 0, StoreID = 0, RangeID = rangeID, Attrs = []\<rparr>,
      Args_Key = key, Args_EndKey = [], Args_Timestamp = \<lparr>WallTime = 0, Logical = 0\<rparr>\<rparr>"

definition GetCmd :: "EngineValue option Command" where
  "GetCmd = \<lparr>readOnly = True, run = (\<lambda>args eng. (eng, engine_Get eng (Args_Key args)))\<rparr>"

section \<open>The timestamp order\<close>

lemma sint_MaxInt64: "sint MaxInt64 = 2 ^ 63 - 1"
  by (simp add: MaxInt64_def)

lemma sint_succ:
  fixes x :: int64
  assumes "x \<noteq> MaxInt64"
  shows "sint (x + 1) = sint x + 1"
proof -
  have "sint x \<noteq> 2 ^ 63 - 1"
  proof
    assume "sint x = 2 ^ 63 - 1"
    then have "sint x = sint MaxInt64" by (simp add: sint_MaxInt64)
    then have "x = MaxInt64" by (rule signed_word_eqI)
    with assms show False by simp
  qed
  moreover have "sint x < 2 ^ 63" using sint_lt [of x] by simp
  moreover have "- (2 ^ 63) \<le> sint x" using sint_ge [of x] by simp
  ultimately have "- (2 ^ 63) \<le> sint x + 1" "sint x + 1 < 2 ^ 63" by simp_all
  then have "signed_take_bit 63 (sint x + 1) = sint x + 1"
    by (rule signed_take_bit_int_eq_self)
  then show ?thesis by (simp add: sint_word_ariths)
qed

lemma sless_succ: "(x::int64) \<noteq> MaxInt64 \<Longrightarrow> word_sless x (x + 1)"
  by (simp add: word_sless_alt sint_succ)

lemma sless_succ_right:
  "word_sless a b \<Longrightarrow> (b::int64) \<noteq> MaxInt64 \<Longrightarrow> word_sless a (b + 1)"
  using sless_succ [of b] by (rule_tac signed.less_trans)

lemma not_sless_succ:
  "\<not> word_sless a b \<Longrightarrow> (a::int64) \<noteq> MaxInt64 \<Longrightarrow> word_sless b (a + 1)"
  using sless_succ [of a] by (simp add: signed.not_less signed.le_less_trans)


lemma Less_irrefl: "\<not> Less t t"
  by (simp add: Less_def)

lemma Less_trans: "Less a b \<Longrightarrow> Less b c \<Longrightarrow> Less a c"
  by (auto simp: Less_def word_sless_alt)

lemma Less_asym: "Less a b \<Longrightarrow> \<not> Less b a"
  by (auto simp: Less_def word_sless_alt)

lemma Less_total: "Less a b \<or> a = b \<or> Less b a"
  using signed.less_linear [of "WallTime a" "WallTime b"]
    signed.less_linear [of "Logical a" "Logical b"]
  by (cases a; cases b) (auto simp: Less_def)

section \<open>The clock\<close>








subsection \<open>Sequences of \<open>Now\<close>\<close>

lemma Now_state: "state (fst (Now p c)) = snd (Now p c)"
  by (simp add: Now_def Let_def timestamp_def)

lemma Now_Less: "Logical (state c) \<noteq> MaxInt64 \<Longrightarrow> Less (state c) (snd (Now p c))"
  by (auto simp: Now_def Let_def timestamp_def Less_def sless_succ signed.not_le)

lemma Nows_Nil_iff: "snd (Nows ps c) = [] \<longleftrightarrow> ps = []"
  by (cases ps) (simp_all add: split_beta)

lemma Nows_chain:
  "Logical (state c) \<noteq> MaxInt64 \<Longrightarrow>
   \<forall>t\<in>set (butlast (snd (Nows ps c))). Logical t \<noteq> MaxInt64 \<Longrightarrow>
   sorted_wrt Less (state c # snd (Nows ps c))"
proof (induction ps arbitrary: c)
  case Nil
  then show ?case by simp
next
  case (Cons p ps)
  let ?c = "fst (Now p c)"
  let ?t = "snd (Now p c)"
  have st: "state ?c = ?t" by (rule Now_state)
  have step: "Less (state c) ?t" using Cons.prems(1) by (rule Now_Less)
  show ?case
  proof (cases ps)
    case Nil
    with step show ?thesis by (simp add: split_beta)
  next
    case (Cons q qs)
    then have ne: "snd (Nows ps ?c) \<noteq> []" using Nows_Nil_iff [of ps ?c] by simp
    with Cons.prems(2) have "Logical ?t \<noteq> MaxInt64"
      and "\<forall>t\<in>set (butlast (snd (Nows ps ?c))). Logical t \<noteq> MaxInt64"
      by (simp_all add: split_beta)
    with Cons.IH [of ?c] st have "sorted_wrt Less (?t # snd (Nows ps ?c))" by simp
    with step show ?thesis
      by (auto simp: split_beta intro: Less_trans)
  qed
qed

lemma Nows_increasing:
  assumes "\<forall>t\<in>set (butlast (snd (Nows ps c))). Logical t \<noteq> MaxInt64"
  shows "sorted_wrt Less (snd (Nows ps c))"
proof (cases ps)
  case Nil
  then show ?thesis by simp
next
  case (Cons p qs)
  let ?c = "fst (Now p c)"
  show ?thesis
  proof (cases qs)
    case Nil
    with Cons show ?thesis by (simp add: split_beta)
  next
    case (Cons q rs)
    then have ne: "snd (Nows qs ?c) \<noteq> []" using Nows_Nil_iff [of qs ?c] by simp
    with assms \<open>ps = p # qs\<close> have "Logical (state ?c) \<noteq> MaxInt64"
      and "\<forall>t\<in>set (butlast (snd (Nows qs ?c))). Logical t \<noteq> MaxInt64"
      by (simp_all add: split_beta Now_state)
    then have "sorted_wrt Less (state ?c # snd (Nows qs ?c))" by (rule Nows_chain)
    with \<open>ps = p # qs\<close> show ?thesis by (simp add: split_beta Now_state)
  qed
qed

text \<open>
  Claim C2, as stated, fails where the logical counter wraps around. A clock that has
  merged the remote timestamp \<open>(5, MaxInt64 - 2)\<close> stands at \<open>(5, MaxInt64 - 1)\<close>;
  with the physical time at 0, the next two calls of \<open>Now\<close> return
  \<open>(5, MaxInt64)\<close> and then \<open>(5, MinInt64)\<close>, which is the smaller one.
\<close>

theorem Nows_not_increasing_counterexample:
  "sorted_wrt word_sle [0, 0 :: int64]
   \<and> snd (Nows [0, 0]
        (run_clock [CallUpdate 0 \<lparr>WallTime = 5, Logical = MaxInt64 - 2\<rparr>] NewClock))
       = [\<lparr>WallTime = 5, Logical = MaxInt64\<rparr>, \<lparr>WallTime = 5, Logical = MinInt64\<rparr>]
   \<and> \<not> sorted_wrt Less (snd (Nows [0, 0]
        (run_clock [CallUpdate 0 \<lparr>WallTime = 5, Logical = MaxInt64 - 2\<rparr>] NewClock)))"
  by (simp add: NewClock_def Update_def Now_def timestamp_def Less_def MaxInt64_def
      MinInt64_def word_sle_eq word_sless_alt)

text \<open>
  Claim C2, amended. For every clock and every sequence of \<open>Now()\<close> calls during which
  the physical-time source returns non-decreasing values, the returned timestamps are
  strictly increasing in the timestamp order, provided the logical counter does not
  overflow: no returned timestamp other than the last has \<open>Logical = MaxInt64\<close>.
\<close>

theorem Nows_strictly_increasing:
  assumes "sorted_wrt word_sle ps"
    and "\<forall>t\<in>set (butlast (snd (Nows ps c))). Logical t \<noteq> MaxInt64"
  shows "sorted_wrt Less (snd (Nows ps c))"
  using assms(2) by (rule Nows_increasing)

theorem Nows_strictly_increasing_witness:
  "sorted_wrt word_sle [1, 1, 2 :: int64]
   \<and> list_all (\<lambda>t. Logical t \<noteq> MaxInt64) (butlast (snd (Nows [1, 1, 2] NewClock)))
   \<and> snd (Nows [1, 1, 2] NewClock)
       = [\<lparr>WallTime = 1, Logical = 0\<rparr>, \<lparr>WallTime = 1, Logical = 1\<rparr>,
          \<lparr>WallTime = 2, Logical = 0\<rparr>]
   \<and> sorted_wrt Less (snd (Nows [1, 1, 2] NewClock))"
proof -
  have r: "snd (Nows [1, 1, 2] NewClock)
      = [\<lparr>WallTime = 1, Logical = 0\<rparr>, \<lparr>WallTime = 1, Logical = 1\<rparr>,
         \<lparr>WallTime = 2, Logical = 0\<rparr>]"
    by (simp add: NewClock_def Now_def timestamp_def word_sle_eq)
  have h1: "sorted_wrt word_sle [1, 1, 2 :: int64]"
    by (simp add: word_sle_eq)
  have h2: "\<forall>t\<in>set (butlast (snd (Nows [1, 1, 2] NewClock))). Logical t \<noteq> MaxInt64"
    unfolding r by (simp add: MaxInt64_def)
  from Nows_strictly_increasing [OF h1 h2] h1 h2 r show ?thesis
    by (simp add: list_all_iff)
qed

subsection \<open>\<open>Update\<close> and the causal order\<close>

lemma Update_Less:
  assumes "snd (snd (Update p rt c)) = None"
    and "Logical rt \<noteq> MaxInt64" and "Logical (state c) \<noteq> MaxInt64"
  shows "Less rt (fst (snd (Update p rt c)))" and "Less (state c) (fst (snd (Update p rt c)))"
  using assms signed.less_linear [of "WallTime rt" "WallTime (state c)"]
  by (auto simp: Update_def Let_def timestamp_def Less_def sless_succ sless_succ_right
      not_sless_succ split: if_splits)

text \<open>
  Claim C9, as stated, fails where the logical counter wraps around: a new clock with
  drift checking off that merges \<open>MaxTimestamp\<close> adopts its wall time and sets the
  logical counter to \<open>MaxInt64 + 1\<close>, which is \<open>MinInt64\<close>; the returned timestamp is
  smaller than the remote one.
\<close>

theorem Update_not_after_remote_counterexample:
  "snd (snd (Update 0 MaxTimestamp NewClock)) = None
   \<and> fst (snd (Update 0 MaxTimestamp NewClock)) = \<lparr>WallTime = MaxInt64, Logical = MinInt64\<rparr>
   \<and> \<not> Less MaxTimestamp (fst (snd (Update 0 MaxTimestamp NewClock)))"
  by (simp add: NewClock_def Update_def timestamp_def Less_def MaxTimestamp_def MaxInt64_def
      MinInt64_def word_sless_alt)

text \<open>
  Claim C9, amended. For every clock and every call \<open>Update(remote)\<close> that returns no
  error, the returned timestamp is strictly greater, in the timestamp order, than both
  the remote argument and the state stored before the call, provided neither the remote
  nor the stored logical counter is \<open>MaxInt64\<close>.
\<close>

theorem Update_result_after_remote_and_local:
  assumes "snd (snd (Update physicalTime rt c)) = None"
    and "Logical rt \<noteq> MaxInt64"
    and "Logical (state c) \<noteq> MaxInt64"
  shows "Less rt (fst (snd (Update physicalTime rt c)))
       \<and> Less (state c) (fst (snd (Update physicalTime rt c)))"
  using assms by (simp add: Update_Less)

theorem Update_result_after_remote_and_local_witness:
  "snd (snd (Update 3 \<lparr>WallTime = 7, Logical = 4\<rparr> NewClock)) = None
   \<and> Logical \<lparr>WallTime = 7, Logical = 4\<rparr> \<noteq> MaxInt64
   \<and> Logical (state NewClock) \<noteq> MaxInt64
   \<and> fst (snd (Update 3 \<lparr>WallTime = 7, Logical = 4\<rparr> NewClock)) = \<lparr>WallTime = 7, Logical = 5\<rparr>
   \<and> Less \<lparr>WallTime = 7, Logical = 4\<rparr> (fst (snd (Update 3 \<lparr>WallTime = 7, Logical = 4\<rparr> NewClock)))
   \<and> Less (state NewClock) (fst (snd (Update 3 \<lparr>WallTime = 7, Logical = 4\<rparr> NewClock)))"
proof -
  have r: "Update 3 \<lparr>WallTime = 7, Logical = 4\<rparr> NewClock
      = (\<lparr>state = \<lparr>WallTime = 7, Logical = 5\<rparr>, maxDrift = 0\<rparr>, \<lparr>WallTime = 7, Logical = 5\<rparr>, None)"
    by (simp add: NewClock_def Update_def timestamp_def word_sless_alt)
  have h1: "snd (snd (Update 3 \<lparr>WallTime = 7, Logical = 4\<rparr> NewClock)) = None"
    unfolding r by simp
  have h2: "Logical \<lparr>WallTime = 7, Logical = 4\<rparr> \<noteq> MaxInt64"
    by (simp add: MaxInt64_def)
  have h3: "Logical (state NewClock) \<noteq> MaxInt64"
    by (simp add: NewClock_def MaxInt64_def)
  from Update_result_after_remote_and_local [OF h1 h2 h3] h1 h2 h3 r show ?thesis by simp
qed

section \<open>Range descriptors\<close>

text \<open>
  Claim C6. For a descriptor with \<open>StartKey < EndKey\<close>, \<open>ContainsKey(k)\<close> is true
  exactly when \<open>StartKey \<le> k < EndKey\<close>, and \<open>ContainsKeyRange(s, e)\<close> with a
  non-empty \<open>e \<ge> s\<close> returns, without the panic, whether \<open>StartKey \<le> s\<close> and
  \<open>e \<le> EndKey\<close>. For the descriptor from \<open>a\<close> to \<open>z\<close>: \<open>ContainsKey(a)\<close> is true,
  \<open>ContainsKey(z)\<close> is false, \<open>ContainsKeyRange(m, n)\<close> is true and
  \<open>ContainsKeyRange(0, a)\<close> is false.
\<close>

theorem ContainsKey_ContainsKeyRange_bounds:
  assumes "StartKey r < EndKey r"
  shows "(ContainsKey r k \<longleftrightarrow> StartKey r \<le> k \<and> k < EndKey r)
       \<and> (e \<noteq> [] \<and> s \<le> e \<longrightarrow>
            ContainsKeyRange r s e = Inr (StartKey r \<le> s \<and> e \<le> EndKey r))
       \<and> ContainsKey \<lparr>StartKey = ''a'', EndKey = ''z'', Replicas = []\<rparr> ''a''
       \<and> \<not> ContainsKey \<lparr>StartKey = ''a'', EndKey = ''z'', Replicas = []\<rparr> ''z''
       \<and> ContainsKeyRange \<lparr>StartKey = ''a'', EndKey = ''z'', Replicas = []\<rparr> ''m'' ''n''
           = Inr True
       \<and> ContainsKeyRange \<lparr>StartKey = ''a'', EndKey = ''z'', Replicas = []\<rparr> ''0'' ''a''
           = Inr False"
  by (auto simp: ContainsKey_def ContainsKeyRange_def Key_Less_def)

theorem ContainsKey_ContainsKeyRange_bounds_witness:
  "StartKey \<lparr>StartKey = ''b'', EndKey = ''d'', Replicas = []\<rparr>
     < EndKey \<lparr>StartKey = ''b'', EndKey = ''d'', Replicas = []\<rparr>
   \<and> ContainsKey \<lparr>StartKey = ''b'', EndKey = ''d'', Replicas = []\<rparr> ''c''
   \<and> ''cc'' \<noteq> [] \<and> ''c'' \<le> ''cc''
   \<and> ContainsKeyRange \<lparr>StartKey = ''b'', EndKey = ''d'', Replicas = []\<rparr> ''c'' ''cc''
       = Inr True"
proof -
  have h: "StartKey \<lparr>StartKey = ''b'', EndKey = ''d'', Replicas = []\<rparr>
      < EndKey \<lparr>StartKey = ''b'', EndKey = ''d'', Replicas = []\<rparr>"
    by simp
  from ContainsKey_ContainsKeyRange_bounds [OF h, of "''c''" "''cc''" "''c''"] h
  show ?thesis by simp
qed

text \<open>
  Claim C10. For every descriptor and every key \<open>k\<close> with
  \<open>StartKey \<le> k \<le> EndKey\<close>, \<open>ContainsKeyRange(k, empty)\<close> returns true: the empty
  end is replaced by \<open>k\<close> and the empty interval from \<open>k\<close> to \<open>k\<close> passes the bounds
  check. In particular, with \<open>k = EndKey\<close>, \<open>ContainsKeyRange(EndKey, empty)\<close> is
  true although \<open>ContainsKey(EndKey)\<close> is false.
\<close>

theorem ContainsKeyRange_empty_end:
  "(StartKey r \<le> k \<and> k \<le> EndKey r \<longrightarrow> ContainsKeyRange r k [] = Inr True)
   \<and> (StartKey r \<le> EndKey r \<longrightarrow>
        ContainsKeyRange r (EndKey r) [] = Inr True \<and> \<not> ContainsKey r (EndKey r))"
  by (auto simp: ContainsKey_def ContainsKeyRange_def Key_Less_def)

theorem ContainsKeyRange_empty_end_witness:
  "StartKey \<lparr>StartKey = ''a'', EndKey = ''z'', Replicas = []\<rparr> \<le> ''z''
   \<and> ''z'' \<le> EndKey \<lparr>StartKey = ''a'', EndKey = ''z'', Replicas = []\<rparr>
   \<and> ContainsKeyRange \<lparr>StartKey = ''a'', EndKey = ''z'', Replicas = []\<rparr> ''z'' [] = Inr True
   \<and> \<not> ContainsKey \<lparr>StartKey = ''a'', EndKey = ''z'', Replicas = []\<rparr> ''z''"
proof -
  have h: "StartKey \<lparr>StartKey = ''a'', EndKey = ''z'', Replicas = []\<rparr>
      \<le> EndKey \<lparr>StartKey = ''a'', EndKey = ''z'', Replicas = []\<rparr>"
    by simp
  from ContainsKeyRange_empty_end [of "\<lparr>StartKey = ''a'', EndKey = ''z'', Replicas = []\<rparr>" "''z''"] h
  show ?thesis by simp
qed

section \<open>The read timestamp cache\<close>

subsection \<open>The maximum that \<open>foldl raise\<close> computes\<close>

lemma raise_ge_left: "\<not> Less (raise m t) m"
  by (simp add: raise_def Less_irrefl Less_asym)

lemma raise_ge_right: "\<not> Less (raise m t) t"
  by (simp add: raise_def Less_irrefl)

lemma not_Less_trans: "\<not> Less a b \<Longrightarrow> \<not> Less b c \<Longrightarrow> \<not> Less a c"
  using Less_total [of a b] Less_total [of b c] by (auto dest: Less_trans)

lemma foldl_raise_mem: "foldl raise m ts \<in> set (m # ts)"
proof (induction ts arbitrary: m)
  case Nil
  then show ?case by simp
next
  case (Cons t ts)
  from Cons.IH [of "raise m t"] show ?case by (auto simp: raise_def split: if_splits)
qed

lemma foldl_raise_ge_init: "\<not> Less (foldl raise m ts) m"
proof (induction ts arbitrary: m)
  case Nil
  then show ?case by (simp add: Less_irrefl)
next
  case (Cons t ts)
  from Cons.IH [of "raise m t"] raise_ge_left [of m t] show ?case
    by (auto dest: not_Less_trans)
qed

lemma foldl_raise_ge: "t \<in> set ts \<Longrightarrow> \<not> Less (foldl raise m ts) t"
proof (induction ts arbitrary: m)
  case Nil
  then show ?case by simp
next
  case (Cons u ts)
  show ?case
  proof (cases "t = u")
    case True
    from foldl_raise_ge_init [of "raise m u" ts] raise_ge_right [of m u] True
    show ?thesis by (auto dest: not_Less_trans)
  next
    case False
    with Cons.prems have "t \<in> set ts" by simp
    then show ?thesis using Cons.IH [of "raise m u"] by simp
  qed
qed

text \<open>A set of timestamps has at most one maximum, so the two facts above pin it.\<close>

lemma Less_max_unique:
  "x \<in> S \<Longrightarrow> y \<in> S \<Longrightarrow> \<forall>t\<in>S. \<not> Less x t \<Longrightarrow> \<forall>t\<in>S. \<not> Less y t \<Longrightarrow> x = y"
  using Less_total [of x y] by auto

subsection \<open>Intervals\<close>

text \<open>\<open>overlaps\<close> is having a key in common, and \<open>NextKey\<close> closes a single key.\<close>

lemma overlaps_iff:
  "overlaps start end e \<longleftrightarrow> (\<exists>k. start \<le> k \<and> k < end \<and> startKey e \<le> k \<and> k < endKey e)"
proof
  assume "overlaps start end e"
  then have "start \<le> max start (startKey e) \<and> max start (startKey e) < end
      \<and> startKey e \<le> max start (startKey e) \<and> max start (startKey e) < endKey e"
    by (simp add: overlaps_def)
  then show "\<exists>k. start \<le> k \<and> k < end \<and> startKey e \<le> k \<and> k < endKey e" ..
next
  assume "\<exists>k. start \<le> k \<and> k < end \<and> startKey e \<le> k \<and> k < endKey e"
  then show "overlaps start end e" by (auto simp: overlaps_def)
qed

lemma not_less_zero_char: "\<not> c < CHR 0x00"
  by (simp add: less_char_def)

lemma single_key_interval: "k \<le> x \<and> x < k @ [CHR 0x00] \<longleftrightarrow> x = k"
proof (induction k arbitrary: x)
  case Nil
  show ?case
  proof (cases x)
    case Nil
    then show ?thesis by simp
  next
    case (Cons b y)
    then show ?thesis by (simp add: not_less_zero_char)
  qed
next
  case (Cons a k)
  show ?case
  proof (cases x)
    case Nil
    then show ?thesis by simp
  next
    case (Cons b y)
    with Cons.IH [of y] show ?thesis by (auto simp del: append.simps simp: append_Cons)
  qed
qed

subsection \<open>\<open>GetMax\<close>\<close>

lemma GetMax_mem:
  "GetMax rtc start end \<in> insert (highWater rtc)
     (readTS ` {e \<in> set (entries rtc). overlaps start (intervalEnd start end) e})"
  using foldl_raise_mem [of "highWater rtc"
      "map readTS (filter (overlaps start (intervalEnd start end)) (entries rtc))"]
  by (auto simp: GetMax_def)

lemma GetMax_ge_highWater: "\<not> Less (GetMax rtc start end) (highWater rtc)"
  by (simp add: GetMax_def foldl_raise_ge_init)

lemma GetMax_ge_entry:
  "e \<in> set (entries rtc) \<Longrightarrow> overlaps start (intervalEnd start end) e \<Longrightarrow>
   \<not> Less (GetMax rtc start end) (readTS e)"
  by (simp add: GetMax_def foldl_raise_ge)

lemma GetMax_no_overlap:
  "\<forall>e\<in>set (entries rtc). \<not> overlaps start (intervalEnd start end) e \<Longrightarrow>
   GetMax rtc start end = highWater rtc"
  by (simp add: GetMax_def filter_False)

subsection \<open>Adding and folding\<close>

lemma Add_highWater:
  "highWater (Add w start end ts rtc)
     = foldl raise (highWater rtc)
         (map readTS (filter (shouldEvict w ts) (entries rtc @ [entryOf (start, end, ts)])))"
  by (simp add: Add_def evict_def)

lemma Add_entries:
  "entries (Add w start end ts rtc)
     = filter (\<lambda>e. \<not> shouldEvict w ts e) (entries rtc @ [entryOf (start, end, ts)])"
  by (simp add: Add_def evict_def)

lemma Adds_highWater:
  "highWater (Adds w rs rtc) = foldl raise (highWater rtc) (map readTS (folded w rs rtc))"
proof (induction rs arbitrary: rtc)
  case Nil
  then show ?case by simp
next
  case (Cons r rs)
  obtain start "end" ts where r: "r = (start, end, ts)" by (cases r)
  show ?case unfolding r
    by (simp only: Adds.simps folded.simps Cons.IH Add_highWater map_append foldl_append)
qed

lemma mset_filter_partition:
  "mset (filter P xs) + mset (filter (\<lambda>x. \<not> P x) xs) = mset xs"
  by (induction xs) auto

text \<open>
  The folded entries and the stored entries together are the entries the cache started
  with and the reads that were added: \<open>folded\<close> lists what is no longer stored.
\<close>

lemma Adds_partition:
  "mset (folded w rs rtc) + mset (entries (Adds w rs rtc))
     = mset (entries rtc) + mset (map entryOf rs)"
proof (induction rs arbitrary: rtc)
  case Nil
  then show ?case by simp
next
  case (Cons r rs)
  obtain start "end" ts where r: "r = (start, end, ts)" by (cases r)
  let ?A = "Add w start end ts rtc"
  let ?xs = "entries rtc @ [entryOf r]"
  have step: "mset (filter (shouldEvict w ts) ?xs) + mset (entries ?A) = mset ?xs"
    unfolding Add_entries r by (rule mset_filter_partition)
  have "mset (folded w (r # rs) rtc) + mset (entries (Adds w (r # rs) rtc))
      = mset (filter (shouldEvict w ts) ?xs)
        + (mset (folded w rs ?A) + mset (entries (Adds w rs ?A)))"
    unfolding r by (simp only: folded.simps Adds.simps mset_append add.assoc)
  also have "\<dots> = mset (filter (shouldEvict w ts) ?xs)
        + (mset (entries ?A) + mset (map entryOf rs))"
    by (simp only: Cons.IH)
  also have "\<dots> = mset ?xs + mset (map entryOf rs)"
    by (simp only: step [symmetric] add.assoc)
  also have "\<dots> = mset (entries rtc) + mset (map entryOf (r # rs))"
    by simp
  finally show ?case .
qed

lemma Adds_added:
  assumes "r \<in> set rs"
  shows "entryOf r \<in> set (entries (Adds w rs rtc)) \<or> entryOf r \<in> set (folded w rs rtc)"
proof -
  from assms have "entryOf r \<in># mset (entries rtc) + mset (map entryOf rs)" by simp
  then have "entryOf r \<in># mset (folded w rs rtc) + mset (entries (Adds w rs rtc))"
    by (simp only: Adds_partition)
  then show ?thesis by auto
qed

lemma Adds_entries_subset:
  "set (entries (Adds w rs rtc)) \<subseteq> set (entries rtc) \<union> entryOf ` set rs"
proof -
  have "set_mset (mset (entries (Adds w rs rtc)))
      \<subseteq> set_mset (mset (folded w rs rtc) + mset (entries (Adds w rs rtc)))"
    by simp
  then show ?thesis unfolding Adds_partition by auto
qed

lemma folded_subset:
  "set (folded w rs rtc) \<subseteq> set (entries rtc) \<union> entryOf ` set rs"
proof -
  have "set_mset (mset (folded w rs rtc))
      \<subseteq> set_mset (mset (folded w rs rtc) + mset (entries (Adds w rs rtc)))"
    by simp
  then show ?thesis unfolding Adds_partition by auto
qed

lemma Adds_highWater_mem:
  "highWater (Adds w rs rtc) \<in> insert (highWater rtc) (readTS ` set (folded w rs rtc))"
  using foldl_raise_mem [of "highWater rtc" "map readTS (folded w rs rtc)"]
  by (auto simp: Adds_highWater)

lemma Adds_highWater_ge:
  "\<not> Less (highWater (Adds w rs rtc)) (highWater rtc)"
  "e \<in> set (folded w rs rtc) \<Longrightarrow> \<not> Less (highWater (Adds w rs rtc)) (readTS e)"
  by (simp_all add: Adds_highWater foldl_raise_ge_init foldl_raise_ge)

text \<open>A read that was added bounds \<open>GetMax\<close> from below on every interval it overlaps,
  whether it is still stored or was folded.\<close>

lemma GetMax_Adds_ge:
  assumes "r \<in> set rs" "overlaps start (intervalEnd start end) (entryOf r)"
  shows "\<not> Less (GetMax (Adds w rs rtc) start end) (readTS (entryOf r))"
proof -
  from Adds_added [OF assms(1), of w rtc] show ?thesis
  proof
    assume "entryOf r \<in> set (entries (Adds w rs rtc))"
    then show ?thesis using assms(2) by (rule GetMax_ge_entry)
  next
    assume "entryOf r \<in> set (folded w rs rtc)"
    then have "\<not> Less (highWater (Adds w rs rtc)) (readTS (entryOf r))"
      by (rule Adds_highWater_ge)
    with GetMax_ge_highWater [of "Adds w rs rtc" start "end"] show ?thesis
      by (rule not_Less_trans)
  qed
qed

lemma GetMax_Adds_mem:
  assumes "entries rtc = []"
  shows "GetMax (Adds w rs rtc) start end \<in> insert (highWater rtc) (readTS ` entryOf ` set rs)"
proof -
  from GetMax_mem [of "Adds w rs rtc" start "end"]
  have "GetMax (Adds w rs rtc) start end = highWater (Adds w rs rtc)
      \<or> GetMax (Adds w rs rtc) start end \<in> readTS ` set (entries (Adds w rs rtc))"
    by auto
  then show ?thesis
  proof
    assume "GetMax (Adds w rs rtc) start end = highWater (Adds w rs rtc)"
    with Adds_highWater_mem [of w rs rtc] folded_subset [of w rs rtc] assms
    show ?thesis by auto
  next
    assume "GetMax (Adds w rs rtc) start end \<in> readTS ` set (entries (Adds w rs rtc))"
    with Adds_entries_subset [of w rs rtc] assms show ?thesis by auto
  qed
qed

lemma GetMax_layered:
  assumes e: "entries rtc = []" and hw: "\<not> Less t3 (highWater rtc)"
    and "Less t1 t2" "Less t2 t3"
  shows "GetMax (Adds w [(''a'', ''d'', t1), (''b'', ''e'', t2), (''c'', [], t3)] rtc) ''a'' ''d''
    = t3"
proof -
  let ?rs = "[(''a'', ''d'', t1), (''b'', ''e'', t2), (''c'', [], t3)]"
  let ?g = "GetMax (Adds w ?rs rtc) ''a'' ''d''"
  have "?g \<in> insert (highWater rtc) (readTS ` entryOf ` set ?rs)"
    using e by (rule GetMax_Adds_mem)
  then have "?g = highWater rtc \<or> ?g = t1 \<or> ?g = t2 \<or> ?g = t3" by auto
  moreover have "Less t1 t3" using assms(3,4) by (rule Less_trans)
  ultimately have upper: "\<not> Less t3 ?g"
    using hw assms(4) by (auto dest: Less_asym simp: Less_irrefl)
  have "overlaps ''a'' (intervalEnd ''a'' ''d'') (entryOf (''c'', [], t3))"
    by (simp add: overlaps_def intervalEnd_def NextKey_def)
  moreover have "(''c'', [], t3) \<in> set ?rs" by simp
  ultimately have "\<not> Less ?g (readTS (entryOf (''c'', [], t3)))"
    by (rule GetMax_Adds_ge [rotated])
  then have lower: "\<not> Less ?g t3" by simp
  from upper lower Less_total [of ?g t3] show ?thesis by blast
qed

subsection \<open>The cache tests on the model\<close>

text \<open>
  \<^verbatim>\<open>TestReadTimestampCache\<close> and \<^verbatim>\<open>TestReadTimestampCacheLayeredIntervals\<close>, with
  the timestamps the manual clock gives them and a window of 10 s: every lookup of the
  two tests returns on the model what the test expects.
\<close>

lemmas cache_eval = GetMax_def Add_def evict_def shouldEvict_def NewReadTimestampCache_def
  Clear_def Clock_Timestamp_def timestamp_def MaxDrift_def SetMaxDrift_def NewClock_def
  overlaps_def intervalEnd_def NextKey_def raise_def Less_def MinTimestamp_def word_sless_alt

lemma TestReadTimestampCache_model:
  "map (\<lambda>(s, e). GetMax (Adds 10000000000
          [(''a'', [], \<lparr>WallTime = 0, Logical = 1\<rparr>),
           (''b'', ''c'', \<lparr>WallTime = 250000001, Logical = 0\<rparr>)]
          (NewReadTimestampCache (SetMaxDrift 250000000 NewClock))) s e)
     [(''b'', []), (''bb'', []), (''c'', []), (''b'', ''c''), (''bb'', ''bz''), (''a'', ''b''),
      (''a'', ''bb''), (''a'', ''d''), (''bz'', ''c''), (''bz'', ''d''), (''c'', ''d'')]
   = [\<lparr>WallTime = 250000001, Logical = 0\<rparr>, \<lparr>WallTime = 250000001, Logical = 0\<rparr>,
      \<lparr>WallTime = 250000000, Logical = 0\<rparr>, \<lparr>WallTime = 250000001, Logical = 0\<rparr>,
      \<lparr>WallTime = 250000001, Logical = 0\<rparr>, \<lparr>WallTime = 250000000, Logical = 0\<rparr>,
      \<lparr>WallTime = 250000001, Logical = 0\<rparr>, \<lparr>WallTime = 250000001, Logical = 0\<rparr>,
      \<lparr>WallTime = 250000001, Logical = 0\<rparr>, \<lparr>WallTime = 250000001, Logical = 0\<rparr>,
      \<lparr>WallTime = 250000000, Logical = 0\<rparr>]"
  by (simp add: cache_eval)

lemma TestReadTimestampCacheLayeredIntervals_model:
  "map (\<lambda>(s, e). Logical (GetMax (Adds 10000000000
          [(''a'', ''d'', \<lparr>WallTime = 250000001, Logical = 0\<rparr>),
           (''b'', ''e'', \<lparr>WallTime = 250000001, Logical = 1\<rparr>),
           (''c'', [], \<lparr>WallTime = 250000001, Logical = 2\<rparr>)]
          (NewReadTimestampCache (SetMaxDrift 250000000 NewClock))) s e))
     [(''a'', []), (''b'', []), (''c'', []), (''d'', []), (''a'', ''b''), (''a'', ''c''),
      (''a'', ''d''), (''b'', ''d''), (''c'', ''d''), (''c0'', ''d'')]
   = [0, 1, 2, 1, 0, 1, 2, 2, 2, 1]"
  by (simp add: cache_eval)

subsection \<open>The claims about the cache\<close>

text \<open>
  Claim C3, as stated, fails where an overlapping entry lies below the high-water mark.
  This is the start of \<^verbatim>\<open>TestReadTimestampCache\<close>: the clock allows a drift of
  250 ms, the new cache has the high-water mark \<open>(250 ms, 0)\<close>, and the read of \<open>a\<close>
  at \<open>(0, 1)\<close> is added. The only stored entry that overlaps the key \<open>a\<close> has the
  timestamp \<open>(0, 1)\<close>, and \<open>GetMax(a)\<close> is the high-water mark, as the test expects.
\<close>

theorem GetMax_below_floor_counterexample:
  "filter (overlaps ''a'' (intervalEnd ''a'' []))
     (entries (Add 10000000000 ''a'' [] \<lparr>WallTime = 0, Logical = 1\<rparr>
        (NewReadTimestampCache (SetMaxDrift 250000000 NewClock))))
     = [\<lparr>startKey = ''a'', endKey = NextKey ''a'', readTS = \<lparr>WallTime = 0, Logical = 1\<rparr>\<rparr>]
   \<and> GetMax (Add 10000000000 ''a'' [] \<lparr>WallTime = 0, Logical = 1\<rparr>
        (NewReadTimestampCache (SetMaxDrift 250000000 NewClock))) ''a'' []
     = \<lparr>WallTime = 250000000, Logical = 0\<rparr>"
  by (simp add: GetMax_def Add_def evict_def shouldEvict_def NewReadTimestampCache_def
      Clear_def Clock_Timestamp_def timestamp_def MaxDrift_def SetMaxDrift_def NewClock_def
      overlaps_def intervalEnd_def NextKey_def raise_def Less_def word_sless_alt)

text \<open>
  Claim C3, amended. For every cache state and every queried interval (an empty end
  meaning the single key \<open>start\<close>), \<open>GetMax(start, end)\<close> is the maximum of the
  high-water mark and the timestamps of all stored entries whose interval overlaps the
  queried one: it is one of them and none of them is above it. So it is the high-water
  mark if no stored entry overlaps. For the layered reads \<open>Add(a, d, t1)\<close>,
  \<open>Add(b, e, t2)\<close>, \<open>Add(c, nil, t3)\<close> with \<open>t1 < t2 < t3\<close>, added to a cache
  without entries whose high-water mark is not above \<open>t3\<close>, \<open>GetMax(a, d)\<close> is
  \<open>t3\<close>.
\<close>

theorem GetMax_maximum_with_floor:
  "GetMax rtc start end \<in> insert (highWater rtc)
      (readTS ` {e \<in> set (entries rtc). overlaps start (intervalEnd start end) e})
   \<and> (\<forall>t\<in>insert (highWater rtc)
          (readTS ` {e \<in> set (entries rtc). overlaps start (intervalEnd start end) e}).
        \<not> Less (GetMax rtc start end) t)
   \<and> ((\<forall>e\<in>set (entries rtc). \<not> overlaps start (intervalEnd start end) e) \<longrightarrow>
        GetMax rtc start end = highWater rtc)
   \<and> (entries rtc = [] \<and> \<not> Less t3 (highWater rtc) \<and> Less t1 t2 \<and> Less t2 t3 \<longrightarrow>
        GetMax (Adds w [(''a'', ''d'', t1), (''b'', ''e'', t2), (''c'', [], t3)] rtc) ''a'' ''d''
          = t3)"
  using GetMax_mem [of rtc start "end"] GetMax_ge_highWater [of rtc start "end"]
    GetMax_ge_entry [of _ rtc start "end"] GetMax_no_overlap [of rtc start "end"]
    GetMax_layered [of rtc t3 t1 t2 w]
  by auto

theorem GetMax_maximum_with_floor_witness:
  "entries (NewReadTimestampCache (SetMaxDrift 250000000 NewClock)) = []
   \<and> \<not> Less \<lparr>WallTime = 250000001, Logical = 2\<rparr>
        (highWater (NewReadTimestampCache (SetMaxDrift 250000000 NewClock)))
   \<and> Less \<lparr>WallTime = 250000001, Logical = 0\<rparr> \<lparr>WallTime = 250000001, Logical = 1\<rparr>
   \<and> Less \<lparr>WallTime = 250000001, Logical = 1\<rparr> \<lparr>WallTime = 250000001, Logical = 2\<rparr>
   \<and> GetMax (NewReadTimestampCache (SetMaxDrift 250000000 NewClock)) ''a'' ''d''
       = \<lparr>WallTime = 250000000, Logical = 0\<rparr>
   \<and> GetMax (Adds 10000000000
        [(''a'', ''d'', \<lparr>WallTime = 250000001, Logical = 0\<rparr>),
         (''b'', ''e'', \<lparr>WallTime = 250000001, Logical = 1\<rparr>),
         (''c'', [], \<lparr>WallTime = 250000001, Logical = 2\<rparr>)]
        (NewReadTimestampCache (SetMaxDrift 250000000 NewClock))) ''a'' ''d''
       = \<lparr>WallTime = 250000001, Logical = 2\<rparr>"
proof -
  let ?rtc = "NewReadTimestampCache (SetMaxDrift 250000000 NewClock)"
  have rtc: "?rtc = \<lparr>entries = [], highWater = \<lparr>WallTime = 250000000, Logical = 0\<rparr>\<rparr>"
    by (simp add: NewReadTimestampCache_def Clear_def Clock_Timestamp_def timestamp_def
        MaxDrift_def SetMaxDrift_def NewClock_def)
  have h1: "entries ?rtc = []" unfolding rtc by simp
  have h2: "\<not> Less \<lparr>WallTime = 250000001, Logical = 2\<rparr> (highWater ?rtc)"
    unfolding rtc by (simp add: Less_def word_sless_alt)
  have h3: "Less \<lparr>WallTime = 250000001, Logical = 0\<rparr> \<lparr>WallTime = 250000001, Logical = 1\<rparr>"
    by (simp add: Less_def word_sless_alt)
  have h4: "Less \<lparr>WallTime = 250000001, Logical = 1\<rparr> \<lparr>WallTime = 250000001, Logical = 2\<rparr>"
    by (simp add: Less_def word_sless_alt)
  have h5: "\<forall>e\<in>set (entries ?rtc). \<not> overlaps ''a'' (intervalEnd ''a'' ''d'') e"
    unfolding rtc by simp
  from GetMax_maximum_with_floor [of ?rtc "''a''" "''d''"
      "\<lparr>WallTime = 250000001, Logical = 2\<rparr>" "\<lparr>WallTime = 250000001, Logical = 0\<rparr>"
      "\<lparr>WallTime = 250000001, Logical = 1\<rparr>" 10000000000] h1 h2 h3 h4 h5
  have "GetMax ?rtc ''a'' ''d'' = highWater ?rtc
      \<and> GetMax (Adds 10000000000
        [(''a'', ''d'', \<lparr>WallTime = 250000001, Logical = 0\<rparr>),
         (''b'', ''e'', \<lparr>WallTime = 250000001, Logical = 1\<rparr>),
         (''c'', [], \<lparr>WallTime = 250000001, Logical = 2\<rparr>)] ?rtc) ''a'' ''d''
       = \<lparr>WallTime = 250000001, Logical = 2\<rparr>"
    by blast
  with h1 h2 h3 h4 show ?thesis unfolding rtc by simp
qed

text \<open>
  Claim C7. After \<open>Clear()\<close> the cache has no entries, and \<open>GetMax\<close> on any key or
  interval returns \<open>clock.Timestamp()\<close> with \<open>maxDrift\<close> added to its wall time, as
  read from the clock at the time of the clear.
\<close>

theorem GetMax_after_Clear:
  "entries (Clear clk rtc) = []
   \<and> GetMax (Clear clk rtc) start end
       = (Clock_Timestamp clk)\<lparr>WallTime := WallTime (Clock_Timestamp clk) + MaxDrift clk\<rparr>"
  by (simp add: Clear_def GetMax_def)

text \<open>\<^verbatim>\<open>TestReadTimestampCacheClear\<close>: the read of \<open>a\<close> at 250 ms + 1 is forgotten.\<close>

theorem GetMax_after_Clear_witness:
  "GetMax (Clear \<lparr>state = \<lparr>WallTime = 250000001, Logical = 0\<rparr>, maxDrift = 250000000\<rparr>
            (Add 10000000000 ''a'' [] \<lparr>WallTime = 250000001, Logical = 0\<rparr>
               (NewReadTimestampCache (SetMaxDrift 250000000 NewClock)))) ''a'' []
     = \<lparr>WallTime = 500000001, Logical = 0\<rparr>"
  using GetMax_after_Clear [of "\<lparr>state = \<lparr>WallTime = 250000001, Logical = 0\<rparr>, maxDrift = 250000000\<rparr>"
      "Add 10000000000 ''a'' [] \<lparr>WallTime = 250000001, Logical = 0\<rparr>
         (NewReadTimestampCache (SetMaxDrift 250000000 NewClock))" "''a''" "[]"]
  by (simp add: Clock_Timestamp_def timestamp_def MaxDrift_def)

text \<open>
  Claim C8. Eviction never lowers the high-water mark. After any sequence of reads added
  to a cache that was just constructed or cleared, the high-water mark is the maximum of
  the floor that \<open>Clear\<close> took from the clock and the timestamps of all entries folded
  away: it is one of them and none of them is above it. So \<open>GetMax\<close> on a key that no
  surviving entry covers returns that maximum.
\<close>

theorem eviction_raises_highWater:
  "\<not> Less (highWater (evict p rtc)) (highWater rtc)
   \<and> highWater (Clear clk rtc)
       = (Clock_Timestamp clk)\<lparr>WallTime := WallTime (Clock_Timestamp clk) + MaxDrift clk\<rparr>
   \<and> \<not> Less (highWater (Adds w rs (Clear clk rtc))) (highWater (Clear clk rtc))
   \<and> highWater (Adds w rs (Clear clk rtc))
       \<in> insert (highWater (Clear clk rtc)) (readTS ` set (folded w rs (Clear clk rtc)))
   \<and> (\<forall>t\<in>insert (highWater (Clear clk rtc)) (readTS ` set (folded w rs (Clear clk rtc))).
        \<not> Less (highWater (Adds w rs (Clear clk rtc))) t)
   \<and> ((\<forall>e\<in>set (entries (Adds w rs (Clear clk rtc))). \<not> overlaps key (intervalEnd key []) e)
        \<longrightarrow> GetMax (Adds w rs (Clear clk rtc)) key [] = highWater (Adds w rs (Clear clk rtc)))"
proof -
  let ?c = "Clear clk rtc"
  have a: "\<not> Less (highWater (evict p rtc)) (highWater rtc)"
    by (simp add: evict_def foldl_raise_ge_init)
  have b: "highWater ?c
      = (Clock_Timestamp clk)\<lparr>WallTime := WallTime (Clock_Timestamp clk) + MaxDrift clk\<rparr>"
    by (simp add: Clear_def)
  have c: "\<not> Less (highWater (Adds w rs ?c)) (highWater ?c)"
    by (rule Adds_highWater_ge)
  have d: "highWater (Adds w rs ?c) \<in> insert (highWater ?c) (readTS ` set (folded w rs ?c))"
    by (rule Adds_highWater_mem)
  have e: "\<forall>t\<in>insert (highWater ?c) (readTS ` set (folded w rs ?c)).
      \<not> Less (highWater (Adds w rs ?c)) t"
    using c Adds_highWater_ge(2) [of _ w rs ?c] by auto
  have f: "(\<forall>e\<in>set (entries (Adds w rs ?c)). \<not> overlaps key (intervalEnd key []) e)
      \<longrightarrow> GetMax (Adds w rs ?c) key [] = highWater (Adds w rs ?c)"
    using GetMax_no_overlap [of "Adds w rs ?c" key "[]"] by blast
  show ?thesis by (intro conjI a b c d e f)
qed

text \<open>
  \<^verbatim>\<open>TestReadTimestampCacheEviction\<close>, with a window of 10 s: the read of \<open>a\<close> at
  250 ms + 1 is folded when \<open>b\<close> is read one window later, and \<open>GetMax(c)\<close> is the
  timestamp of \<open>a\<close>.
\<close>

theorem eviction_raises_highWater_witness:
  "folded 10000000000
     [(''a'', [], \<lparr>WallTime = 250000001, Logical = 0\<rparr>),
      (''b'', [], \<lparr>WallTime = 10250000001, Logical = 0\<rparr>)]
     (Clear (SetMaxDrift 250000000 NewClock) \<lparr>entries = [], highWater = MinTimestamp\<rparr>)
     = [\<lparr>startKey = ''a'', endKey = NextKey ''a'',
         readTS = \<lparr>WallTime = 250000001, Logical = 0\<rparr>\<rparr>]
   \<and> list_all (\<lambda>e. \<not> overlaps ''c'' (intervalEnd ''c'' []) e)
        (entries (Adds 10000000000
           [(''a'', [], \<lparr>WallTime = 250000001, Logical = 0\<rparr>),
            (''b'', [], \<lparr>WallTime = 10250000001, Logical = 0\<rparr>)]
           (Clear (SetMaxDrift 250000000 NewClock) \<lparr>entries = [], highWater = MinTimestamp\<rparr>)))
   \<and> highWater (Adds 10000000000
        [(''a'', [], \<lparr>WallTime = 250000001, Logical = 0\<rparr>),
         (''b'', [], \<lparr>WallTime = 10250000001, Logical = 0\<rparr>)]
        (Clear (SetMaxDrift 250000000 NewClock) \<lparr>entries = [], highWater = MinTimestamp\<rparr>))
       = \<lparr>WallTime = 250000001, Logical = 0\<rparr>
   \<and> GetMax (Adds 10000000000
        [(''a'', [], \<lparr>WallTime = 250000001, Logical = 0\<rparr>),
         (''b'', [], \<lparr>WallTime = 10250000001, Logical = 0\<rparr>)]
        (Clear (SetMaxDrift 250000000 NewClock) \<lparr>entries = [], highWater = MinTimestamp\<rparr>))
        ''c'' []
       = \<lparr>WallTime = 250000001, Logical = 0\<rparr>"
proof -
  let ?rs = "[(''a'', [], \<lparr>WallTime = 250000001, Logical = 0\<rparr>),
      (''b'', [], \<lparr>WallTime = 10250000001, Logical = 0\<rparr>)]"
  let ?c = "Clear (SetMaxDrift 250000000 NewClock) \<lparr>entries = [], highWater = MinTimestamp\<rparr>"
  have c: "?c = \<lparr>entries = [], highWater = \<lparr>WallTime = 250000000, Logical = 0\<rparr>\<rparr>"
    by (simp add: Clear_def Clock_Timestamp_def timestamp_def MaxDrift_def SetMaxDrift_def
        NewClock_def)
  have r: "Adds 10000000000 ?rs ?c
      = \<lparr>entries = [\<lparr>startKey = ''b'', endKey = NextKey ''b'',
                      readTS = \<lparr>WallTime = 10250000001, Logical = 0\<rparr>\<rparr>],
         highWater = \<lparr>WallTime = 250000001, Logical = 0\<rparr>\<rparr>"
    unfolding c
    by (simp add: Add_def evict_def shouldEvict_def intervalEnd_def raise_def Less_def
        word_sless_alt)
  have f: "folded 10000000000 ?rs ?c
      = [\<lparr>startKey = ''a'', endKey = NextKey ''a'',
          readTS = \<lparr>WallTime = 250000001, Logical = 0\<rparr>\<rparr>]"
    unfolding c
    by (simp add: Add_def evict_def shouldEvict_def intervalEnd_def raise_def Less_def
        word_sless_alt)
  have h: "\<forall>e\<in>set (entries (Adds 10000000000 ?rs ?c)).
      \<not> overlaps ''c'' (intervalEnd ''c'' []) e"
    unfolding r by (simp add: overlaps_def intervalEnd_def NextKey_def)
  from eviction_raises_highWater [where clk = "SetMaxDrift 250000000 NewClock"
      and w = 10000000000 and rs = ?rs
      and rtc = "\<lparr>entries = [], highWater = MinTimestamp\<rparr>" and key = "''c''"] h
  have "GetMax (Adds 10000000000 ?rs ?c) ''c'' [] = highWater (Adds 10000000000 ?rs ?c)"
    by blast
  with f h show ?thesis unfolding r by (simp add: list_all_iff)
qed

section \<open>The store\<close>

subsection \<open>\<open>ExecuteCmd\<close> and the clock\<close>




lemma Update_WallTime:
  assumes "snd (snd (Update p rt c)) = None"
  shows "WallTime (state (fst (Update p rt c)))
     = (if word_sless (WallTime (state c)) p \<and> word_sless (WallTime rt) p then p
        else if word_sless (WallTime (state c)) (WallTime rt) then WallTime rt
        else WallTime (state c))"
  using assms by (auto simp: Update_def Let_def split: if_splits)




lemma testStore_eq:
  "testStore =
     \<lparr>engine = [(RangeMetaKey ''z'', MetaValue
         \<lparr>StartKey = ''a'', EndKey = ''z'',
          Replicas = [\<lparr>NodeID = 0, StoreID = 0, RangeID = 1, Attrs = []\<rparr>],
          Meta_ClusterID = [], Meta_RangeID = 1\<rparr>)],
      clock = NewClock,
      readTSCache = \<lparr>entries = [], highWater = \<lparr>WallTime = 0, Logical = 0\<rparr>\<rparr>,
      ident = None,
      ranges = [\<lparr>StartKey = ''a'', EndKey = ''z'',
          Replicas = [\<lparr>NodeID = 0, StoreID = 0, RangeID = 1, Attrs = []\<rparr>],
          Meta_ClusterID = [], Meta_RangeID = 1\<rparr>]\<rparr>"
  by (simp add: testStore_def createTestStore_def CreateRange_def NewStore_def nextRangeID_def
      Key_Less_def Let_def engine_Put_def LookupKey_def NewReadTimestampCache_def Clear_def
      Clock_Timestamp_def timestamp_def MaxDrift_def NewClock_def)

lemma createTestStore_eq:
  "createTestStore = Inr (testStore,
     \<lparr>StartKey = ''a'', EndKey = ''z'',
      Replicas = [\<lparr>NodeID = 0, StoreID = 0, RangeID = 1, Attrs = []\<rparr>],
      Meta_ClusterID = [], Meta_RangeID = 1\<rparr>)"
  by (simp add: testStore_def createTestStore_def CreateRange_def NewStore_def nextRangeID_def
      Key_Less_def Let_def)

text \<open>
  \<^verbatim>\<open>TestStoreExecuteCmdBadRange\<close>, \<^verbatim>\<open>TestStoreExecuteCmdOutOfRange\<close> and
  \<^verbatim>\<open>TestStoreExecuteCmdWithClockDrift\<close> on the model.
\<close>

lemma TestStoreExecuteCmd_failures_model:
  "snd (ExecuteCmd 10000000000 0 GetCmd (getArgs ''0'' 2) testStore) = Inl (InvalidRange 2)"
  "snd (ExecuteCmd 10000000000 0 GetCmd (getArgs ''0'' 1) testStore)
     = Inl (KeyOutOfRange ''0'' [])"
  "snd (ExecuteCmd 10000000000 1 GetCmd
          ((getArgs ''a'' 1)\<lparr>Args_Timestamp := \<lparr>WallTime = 250000002, Logical = 0\<rparr>\<rparr>)
          (testStore\<lparr>clock := fst (Now 1 (SetMaxDrift 250000000 NewClock))\<rparr>))
     = Inl (ClockError (DriftError 250000002 250000001))"
  by (simp_all add: testStore_eq ExecuteCmd_def GetRange_def getArgs_def GetCmd_def Equal_def
      Now_def Update_def NewClock_def SetMaxDrift_def timestamp_def ContainsKeyRange_def
      Key_Less_def Let_def word_sle_eq word_sless_alt)




subsection \<open>\<open>Init\<close>, \<open>Bootstrap\<close> and the first range\<close>

lemma meta_key_not_ident: "RangeMetaKey k \<noteq> KeyLocalIdent"
  by (simp add: RangeMetaKey_def KeyMetaPrefix_def KeyLocalIdent_def)

lemma meta_key_prefix: "take (length KeyMetaPrefix) (RangeMetaKey k) = KeyMetaPrefix"
  by (simp add: RangeMetaKey_def)

lemma ident_key_prefix: "take (length KeyMetaPrefix) KeyLocalIdent \<noteq> KeyMetaPrefix"
  by (simp add: KeyMetaPrefix_def KeyLocalIdent_def)

lemma Init_not_bootstrapped:
  "\<forall>i. engine_Get (engine s) KeyLocalIdent \<noteq> Some (IdentValue i) \<Longrightarrow> Init s = Inl NotBootstrapped"
  by (auto simp: Init_def split: option.splits EngineValue.splits)

lemma Bootstrap_nonempty: "engine s \<noteq> [] \<Longrightarrow> Bootstrap i s = Inl EngineNotEmpty"
  by (simp add: Bootstrap_def)

lemma Bootstrap_empty:
  "engine s = [] \<Longrightarrow>
   Bootstrap i s = Inr (s\<lparr>engine := [(KeyLocalIdent, IdentValue i)], ident := Some i\<rparr>)"
  by (simp add: Bootstrap_def engine_Get_def engine_Put_def)

lemma Bootstrap_Inr:
  "Bootstrap i s = Inr s1 \<Longrightarrow>
   engine s = [] \<and> s1 = s\<lparr>engine := [(KeyLocalIdent, IdentValue i)], ident := Some i\<rparr>"
  by (auto simp: Bootstrap_def engine_Get_def engine_Put_def split: if_splits)

lemma Init_after_Bootstrap:
  assumes "Bootstrap i s = Inr s1"
  shows "\<exists>s3. Init (NewStore c (engine s1)) = Inr s3 \<and> ident s3 = Some i"
  using Bootstrap_Inr [OF assms]
  by (simp add: Init_def NewStore_def engine_Get_def)

lemma GetRange_after_Bootstrap:
  assumes "Bootstrap i s = Inr s1" "ranges s = []"
  shows "GetRange 1 s1 = Inl (RangeNotFound 1)"
  using Bootstrap_Inr [OF assms(1)] assms(2) by (simp add: GetRange_def)

lemma first_range:
  assumes "engine s = []" "ranges s = []" "Key_Less start end"
  shows "\<exists>s1 s2 rng s3. Bootstrap i s = Inr s1
      \<and> CreateRange start end replicas s1 = Inr (s2, rng)
      \<and> Meta_RangeID rng = 1 \<and> GetRange 1 s2 = Inr rng
      \<and> Init (NewStore c (engine s2)) = Inr s3 \<and> ident s3 = Some i
      \<and> GetRange 1 s3 = Inr rng"
proof -
  let ?s1 = "s\<lparr>engine := [(KeyLocalIdent, IdentValue i)], ident := Some i\<rparr>"
  let ?rng = "\<lparr>StartKey = start, EndKey = end, Replicas = replicas,
     Meta_ClusterID = Ident_ClusterID i, Meta_RangeID = 1\<rparr>"
  let ?eng = "[(RangeMetaKey end, MetaValue ?rng), (KeyLocalIdent, IdentValue i)]"
  let ?s2 = "?s1\<lparr>engine := ?eng, ranges := [?rng]\<rparr>"
  have b: "Bootstrap i s = Inr ?s1" using assms(1) by (rule Bootstrap_empty)
  have cr: "CreateRange start end replicas ?s1 = Inr (?s2, ?rng)"
    using assms(2,3) meta_key_not_ident [of "end"]
    by (simp add: CreateRange_def nextRangeID_def engine_Put_def LookupKey_def Let_def)
  have g2: "GetRange 1 ?s2 = Inr ?rng" by (simp add: GetRange_def)
  have scan: "engine_Scan ?eng KeyMin KeyMax = ?eng"
    by (simp add: engine_Scan_def KeyMin_def KeyMax_def RangeMetaKey_def KeyMetaPrefix_def
        KeyLocalIdent_def)
  have init: "Init (NewStore c ?eng) = Inr ((NewStore c ?eng)\<lparr>ident := Some i, ranges := [?rng]\<rparr>)"
    using meta_key_not_ident [of "end"]
    by (simp add: Init_def NewStore_def engine_Get_def scan meta_key_prefix ident_key_prefix)
  have g3: "GetRange 1 ((NewStore c ?eng)\<lparr>ident := Some i, ranges := [?rng]\<rparr>) = Inr ?rng"
    by (simp add: GetRange_def)
  from b cr g2 init g3 show ?thesis by simp
qed

text \<open>
  Claim C5. \<open>Init()\<close> fails when the engine holds no \<open>StoreIdent\<close>.
  \<open>Bootstrap(ident)\<close> fails when the engine holds any data. After a successful
  \<open>Bootstrap\<close>, a fresh store on the same engine initialises and has the identity. On
  an empty engine and a store without ranges, \<open>Bootstrap\<close> succeeds, the first range
  created with \<open>CreateRange\<close> gets the id 1 and \<open>GetRange(1)\<close> fetches it, and a
  fresh store on the same engine initialises and fetches the same range with
  \<open>GetRange(1)\<close>.
\<close>

theorem Store_Init_and_Bootstrap:
  "((\<forall>j. engine_Get (engine s) KeyLocalIdent \<noteq> Some (IdentValue j)) \<longrightarrow>
      Init s = Inl NotBootstrapped)
   \<and> (engine s \<noteq> [] \<longrightarrow> Bootstrap i s = Inl EngineNotEmpty)
   \<and> (Bootstrap i s = Inr s1 \<longrightarrow>
        (\<exists>s3. Init (NewStore c (engine s1)) = Inr s3 \<and> ident s3 = Some i))
   \<and> (engine s = [] \<and> ranges s = [] \<and> Key_Less start end \<longrightarrow>
        (\<exists>t1 t2 rng t3. Bootstrap i s = Inr t1
           \<and> CreateRange start end replicas t1 = Inr (t2, rng)
           \<and> Meta_RangeID rng = 1 \<and> GetRange 1 t2 = Inr rng
           \<and> Init (NewStore c (engine t2)) = Inr t3 \<and> ident t3 = Some i
           \<and> GetRange 1 t3 = Inr rng))"
  using Init_not_bootstrapped [of s] Bootstrap_nonempty [of s i]
    Init_after_Bootstrap [of i s s1 c] first_range [of s start "end" i replicas c]
  by blast

text \<open>\<^verbatim>\<open>TestStoreInitAndBootstrap\<close> and \<^verbatim>\<open>TestBootstrapOfNonEmptyStore\<close>.\<close>

theorem Store_Init_and_Bootstrap_witness:
  "Init (NewStore NewClock []) = Inl NotBootstrapped
   \<and> Init (NewStore NewClock [(''foo'', BytesValue ''bar'')]) = Inl NotBootstrapped
   \<and> Bootstrap testIdent (NewStore NewClock [(''foo'', BytesValue ''bar'')]) = Inl EngineNotEmpty
   \<and> (\<exists>t1 t2 rng t3. Bootstrap testIdent (NewStore NewClock []) = Inr t1
         \<and> CreateRange KeyMin KeyMax [] t1 = Inr (t2, rng)
         \<and> Meta_RangeID rng = 1 \<and> GetRange 1 t2 = Inr rng
         \<and> Init (NewStore NewClock (engine t2)) = Inr t3 \<and> ident t3 = Some testIdent
         \<and> GetRange 1 t3 = Inr rng)"
proof -
  let ?e = "NewStore NewClock []"
  let ?f = "NewStore NewClock [(''foo'', BytesValue ''bar'')]"
  have h1: "\<forall>j. engine_Get (engine ?e) KeyLocalIdent \<noteq> Some (IdentValue j)"
    by (simp add: NewStore_def engine_Get_def)
  have h2: "\<forall>j. engine_Get (engine ?f) KeyLocalIdent \<noteq> Some (IdentValue j)"
    by (simp add: NewStore_def engine_Get_def KeyLocalIdent_def)
  have h3: "engine ?f \<noteq> []"
    by (simp add: NewStore_def)
  have h4: "engine ?e = [] \<and> ranges ?e = [] \<and> Key_Less KeyMin KeyMax"
    by (simp add: NewStore_def Key_Less_def KeyMin_def KeyMax_def)
  from Store_Init_and_Bootstrap [of ?e] h1
  have a: "Init ?e = Inl NotBootstrapped" by blast
  from Store_Init_and_Bootstrap [of ?f testIdent] h2 h3
  have b: "Init ?f = Inl NotBootstrapped"
    and c: "Bootstrap testIdent ?f = Inl EngineNotEmpty" by blast+
  from Store_Init_and_Bootstrap [of ?e testIdent _ NewClock KeyMin KeyMax "[]"] h4
  have d: "\<exists>t1 t2 rng t3. Bootstrap testIdent ?e = Inr t1
         \<and> CreateRange KeyMin KeyMax [] t1 = Inr (t2, rng)
         \<and> Meta_RangeID rng = 1 \<and> GetRange 1 t2 = Inr rng
         \<and> Init (NewStore NewClock (engine t2)) = Inr t3 \<and> ident t3 = Some testIdent
         \<and> GetRange 1 t3 = Inr rng"
    by blast
  from a b c d show ?thesis by (intro conjI)
qed

end
